theory Spec2Isabelle
  imports Main "HOL-Library.Sublist"
begin

section \<open>Strings and paths\<close>

text \<open>
  Python strings are modelled as \<open>string\<close> (lists of bytes); a decoded text and its
  UTF-8 bytes are identified, which is exact for the ASCII prefixes and separators the
  program inspects.  The path functions below follow \<^verbatim>\<open>posixpath\<close>, the
  implementation of \<^verbatim>\<open>os.path\<close> the program runs on.
\<close>

definition startswith :: "string \<Rightarrow> string \<Rightarrow> bool" where
  "startswith s p = prefix p s"

definition endswith :: "string \<Rightarrow> string \<Rightarrow> bool" where
  "endswith s p = suffix p s"

text \<open>\<^verbatim>\<open>s.strip(c)\<close> for a one-character argument.\<close>

definition strip :: "char \<Rightarrow> string \<Rightarrow> string" where
  "strip c s = rev (dropWhile (\<lambda>x. x = c) (rev (dropWhile (\<lambda>x. x = c) s)))"

text \<open>\<^verbatim>\<open>s.rstrip('/')\<close>.\<close>

definition rstrip_sep :: "string \<Rightarrow> string" where
  "rstrip_sep s = rev (dropWhile (\<lambda>x. x = CHR ''/'') (rev s))"

text \<open>\<^verbatim>\<open>bytes[start:end]\<close>: slicing clamps to the length and is empty when end < start.\<close>

definition slice :: "string \<Rightarrow> nat \<Rightarrow> nat \<Rightarrow> string" where
  "slice s i j = take (j - i) (drop i s)"

text \<open>\<^verbatim>\<open>os.path.isabs\<close>.\<close>

definition isabs :: "string \<Rightarrow> bool" where
  "isabs p = startswith p ''/''"

text \<open>
  \<^verbatim>\<open>os.path.join(a, b)\<close>: an absolute \<open>b\<close> (or an empty \<open>a\<close>) discards \<open>a\<close>;
  otherwise one separator stands between them.  With three arguments the library folds
  from the left, so \<^verbatim>\<open>join(a, b, c)\<close> is \<open>join (join a b) c\<close>.
\<close>

definition join :: "string \<Rightarrow> string \<Rightarrow> string" where
  "join a b =
     (if startswith b ''/'' \<or> a = [] then b
      else if endswith a ''/'' then a @ b
      else a @ ''/'' @ b)"

text \<open>
  \<^verbatim>\<open>os.path.dirname(p)\<close>: the text up to and including the last separator, with
  trailing separators removed unless it consists of separators only.
\<close>

definition dirname :: "string \<Rightarrow> string" where
  "dirname p =
     (let head = rev (dropWhile (\<lambda>x. x \<noteq> CHR ''/'') (rev p))
      in if head \<noteq> [] \<and> head \<noteq> replicate (length head) (CHR ''/'')
         then rstrip_sep head else head)"

text \<open>\<^verbatim>\<open>path.split('/')\<close> and \<^verbatim>\<open>'/'.join(comps)\<close>.\<close>

fun split_sep :: "string \<Rightarrow> string list" where
  "split_sep [] = [[]]"
| "split_sep (c # cs) =
     (if c = CHR ''/'' then [] # split_sep cs
      else (case split_sep cs of
              [] \<Rightarrow> [[c]]
            | w # ws \<Rightarrow> (c # w) # ws))"

fun sep_join :: "string list \<Rightarrow> string" where
  "sep_join [] = []"
| "sep_join [x] = x"
| "sep_join (x # y # ys) = x @ ''/'' @ sep_join (y # ys)"

text \<open>
  The component loop of \<^verbatim>\<open>os.path.normpath\<close>: empty and \<open>.\<close> components are
  skipped, \<open>..\<close> removes the previous component when there is one to remove, and is
  dropped at the root.
\<close>

fun norm_comps :: "nat \<Rightarrow> string list \<Rightarrow> string list \<Rightarrow> string list" where
  "norm_comps initial_slashes [] new_comps = new_comps"
| "norm_comps initial_slashes (cmp # comps) new_comps =
     (if cmp = [] \<or> cmp = ''.'' then norm_comps initial_slashes comps new_comps
      else if cmp \<noteq> ''..'' \<or> (initial_slashes = 0 \<and> new_comps = [])
              \<or> (new_comps \<noteq> [] \<and> last new_comps = ''..'')
        then norm_comps initial_slashes comps (new_comps @ [cmp])
      else if new_comps \<noteq> [] then norm_comps initial_slashes comps (butlast new_comps)
      else norm_comps initial_slashes comps new_comps)"

definition normpath :: "string \<Rightarrow> string" where
  "normpath path =
     (if path = [] then ''.''
      else
        let initial_slashes =
              (if startswith path ''/''
               then (if startswith path ''//'' \<and> \<not> startswith path ''///'' then 2 else 1)
               else (0::nat));
            comps = norm_comps initial_slashes (split_sep path) [];
            path' = replicate initial_slashes (CHR ''/'') @ sep_join comps
        in if path' = [] then ''.'' else path')"

text \<open>
  \<^verbatim>\<open>bytes.decode("utf-8")\<close> accepts the well-formed byte sequences of UTF-8: no
  overlong forms, no surrogates, nothing above U+10FFFF.
\<close>

definition byte_between :: "nat \<Rightarrow> char \<Rightarrow> nat \<Rightarrow> bool" where
  "byte_between lo c hi = (lo \<le> of_char c \<and> of_char c \<le> hi)"

fun valid_utf8 :: "string \<Rightarrow> bool" where
  "valid_utf8 [] = True"
| "valid_utf8 (a # s) =
     (if byte_between 0x00 a 0x7F then valid_utf8 s
      else if byte_between 0xC2 a 0xDF then
        (case s of
           b # s1 \<Rightarrow> byte_between 0x80 b 0xBF \<and> valid_utf8 s1
         | _ \<Rightarrow> False)
      else if byte_between 0xE0 a 0xEF then
        (case s of
           b # c # s2 \<Rightarrow>
             byte_between (if of_char a = (0xE0::nat) then 0xA0 else 0x80) b
                          (if of_char a = (0xED::nat) then 0x9F else 0xBF)
             \<and> byte_between 0x80 c 0xBF \<and> valid_utf8 s2
         | _ \<Rightarrow> False)
      else if byte_between 0xF0 a 0xF4 then
        (case s of
           b # c # d # s3 \<Rightarrow>
             byte_between (if of_char a = (0xF0::nat) then 0x90 else 0x80) b
                          (if of_char a = (0xF4::nat) then 0x8F else 0xBF)
             \<and> byte_between 0x80 c 0xBF \<and> byte_between 0x80 d 0xBF \<and> valid_utf8 s3
         | _ \<Rightarrow> False)
      else False)"

section \<open>The environment: file system, configuration files, parser\<close>

text \<open>The exceptions the program can meet.\<close>

datatype error =
  OSError | JSONDecodeError | UnicodeDecodeError | RecursionError | AttributeError | TypeError

text \<open>\<^verbatim>\<open>bytes.decode("utf-8")\<close>; the text is kept as its UTF-8 bytes.\<close>

definition decode_utf8 :: "string \<Rightarrow> error + string" where
  "decode_utf8 b = (if valid_utf8 b then Inr b else Inl UnicodeDecodeError)"

text \<open>
  The values \<^verbatim>\<open>json.load\<close> produces.  An object is given by the items of its
  dictionary, whose keys are distinct; a number is given by an integer (of a float only
  its being zero and its not being text matter here).
\<close>

datatype json =
  JNull | JBool bool | JNumber int | JString string | JArray "json list"
  | JObject "(string \<times> json) list"

text \<open>
  \<^verbatim>\<open>d.get(key, default)\<close> on a loaded value: only a dictionary has the method, on
  anything else the call raises \<^verbatim>\<open>AttributeError\<close>.
\<close>

definition dict_get :: "json \<Rightarrow> string \<Rightarrow> json \<Rightarrow> error + json" where
  "dict_get d key dflt =
     (case d of
        JObject items \<Rightarrow>
          Inr (case map_of items key of None \<Rightarrow> dflt | Some v \<Rightarrow> v)
      | _ \<Rightarrow> Inl AttributeError)"

text \<open>The truth value of a loaded value in a condition.\<close>

fun truthy :: "json \<Rightarrow> bool" where
  "truthy JNull = False"
| "truthy (JBool b) = b"
| "truthy (JNumber n) = (n \<noteq> 0)"
| "truthy (JString s) = (s \<noteq> [])"
| "truthy (JArray xs) = (xs \<noteq> [])"
| "truthy (JObject items) = (items \<noteq> [])"

text \<open>A node of the tree-sitter parse tree.\<close>

datatype node = Node (node_type: string) (start_byte: nat) (end_byte: nat) (children: "node list")

text \<open>
  What the program observes of its environment: the working directory
  (\<^verbatim>\<open>os.getcwd\<close>), which paths are regular files (\<^verbatim>\<open>os.path.isfile\<close>), the
  outcome of opening and reading a file (\<^verbatim>\<open>open(p, 'rb').read()\<close>), the outcome of
  opening a configuration file and passing it to \<^verbatim>\<open>json.load\<close> (a value, or any of
  the exceptions: the file cannot be opened, is not UTF-8, is not JSON, is nested too
  deeply), and the tree the JavaScript parser builds from a file's bytes.
\<close>

record fs =
  cwd :: string
  isfile :: "string \<Rightarrow> bool"
  read_bytes :: "string \<Rightarrow> error + string"
  load_json :: "string \<Rightarrow> error + json"
  parser_ts :: "string \<Rightarrow> node"

text \<open>\<^verbatim>\<open>os.path.abspath\<close>.\<close>

definition abspath :: "fs \<Rightarrow> string \<Rightarrow> string" where
  "abspath env path = normpath (if isabs path then path else join (cwd env) path)"

section \<open>Walking the parse tree\<close>

text \<open>
  The tree cursor: the current node and, for every ancestor on the way down, the ancestor
  with the siblings still to the right.  Each move returns the moved cursor, or \<open>None\<close>
  where the library returns \<^verbatim>\<open>False\<close> and leaves the cursor in place.
\<close>

type_synonym cursor = "node \<times> (node \<times> node list) list"

fun goto_first_child :: "cursor \<Rightarrow> cursor option" where
  "goto_first_child (n, up) =
     (case children n of
        [] \<Rightarrow> None
      | c # rest \<Rightarrow> Some (c, (n, rest) # up))"

fun goto_next_sibling :: "cursor \<Rightarrow> cursor option" where
  "goto_next_sibling (n, []) = None"
| "goto_next_sibling (n, (p, []) # up) = None"
| "goto_next_sibling (n, (p, r # rs) # up) = Some (r, (p, rs) # up)"

fun goto_parent :: "cursor \<Rightarrow> cursor option" where
  "goto_parent (n, []) = None"
| "goto_parent (n, (p, rs) # up) = Some (p, up)"

text \<open>Number of nodes of a tree, and the work left above a cursor.\<close>

fun node_count :: "node \<Rightarrow> nat" where
  "node_count (Node t s e cs) = Suc (sum_list (map node_count cs))"

fun pending :: "(node \<times> node list) list \<Rightarrow> nat" where
  "pending [] = 0"
| "pending ((p, rs) # up) = Suc (2 * sum_list (map node_count rs) + pending up)"

lemma node_count_children: "node_count n = Suc (sum_list (map node_count (children n)))"
  by (cases n) simp

text \<open>
  The body of \<^verbatim>\<open>traverse_tree\<close>: the \<^verbatim>\<open>while True\<close> loop over the cursor and the
  flag \<^verbatim>\<open>visited_children\<close>; the nodes the generator yields are collected in order.
\<close>

function traverse_loop :: "cursor \<Rightarrow> bool \<Rightarrow> node list" where
  "traverse_loop cursor visited_children =
     (if \<not> visited_children then
        fst cursor #
          (case goto_first_child cursor of
             None \<Rightarrow> traverse_loop cursor True
           | Some c \<Rightarrow> traverse_loop c False)
      else
        (case goto_next_sibling cursor of
           Some c \<Rightarrow> traverse_loop c False
         | None \<Rightarrow>
             (case goto_parent cursor of
                Some c \<Rightarrow> traverse_loop c True
              | None \<Rightarrow> [])))"
  by pat_completeness auto
termination
proof (relation "measure (\<lambda>(c, v). pending (snd c) + (if v then 1 else 2 * node_count (fst c)))")
  show "wf (measure (\<lambda>(c, v). pending (snd c) + (if v then 1 else 2 * node_count (fst c))))"
    by simp
next
  fix cursor :: cursor and visited_children
  assume "\<not> visited_children" "goto_first_child cursor = None"
  then show "((cursor, True), (cursor, visited_children))
      \<in> measure (\<lambda>(c, v). pending (snd c) + (if v then 1 else 2 * node_count (fst c)))"
    by (cases cursor) (simp add: node_count_children)
next
  fix cursor :: cursor and visited_children x2
  assume "\<not> visited_children" "goto_first_child cursor = Some x2"
  then show "((x2, False), (cursor, visited_children))
      \<in> measure (\<lambda>(c, v). pending (snd c) + (if v then 1 else 2 * node_count (fst c)))"
    by (cases cursor) (auto simp: node_count_children split: list.splits)
next
  fix cursor :: cursor and visited_children x2
  assume "\<not> \<not> visited_children" "goto_next_sibling cursor = Some x2"
  then show "((x2, False), (cursor, visited_children))
      \<in> measure (\<lambda>(c, v). pending (snd c) + (if v then 1 else 2 * node_count (fst c)))"
    by (cases cursor rule: goto_next_sibling.cases) auto
next
  fix cursor :: cursor and visited_children x2
  assume "\<not> \<not> visited_children" "goto_next_sibling cursor = None" "goto_parent cursor = Some x2"
  then show "((x2, True), (cursor, visited_children))
      \<in> measure (\<lambda>(c, v). pending (snd c) + (if v then 1 else 2 * node_count (fst c)))"
    by (cases cursor rule: goto_next_sibling.cases) auto
qed

declare traverse_loop.simps [simp del]

definition traverse_tree :: "node \<Rightarrow> node list" where
  "traverse_tree tree = traverse_loop (tree, []) False"

text \<open>Pre-order listing of a tree, the order the loop is documented to produce.\<close>

fun preorder :: "node \<Rightarrow> node list" where
  "preorder (Node t s e cs) = Node t s e cs # concat (map preorder cs)"

section \<open>Locating the configuration\<close>

lemma dirname_prefix: "prefix (dirname p) p"
proof -
  have h: "prefix (rev (dropWhile (\<lambda>x. x \<noteq> CHR ''/'') (rev p))) p"
    using suffix_dropWhile [of "\<lambda>x. x \<noteq> CHR ''/''" "rev p"] by (simp add: suffix_to_prefix)
  have r: "prefix (rstrip_sep h') h'" for h'
    using suffix_dropWhile [of "\<lambda>x. x = CHR ''/''" "rev h'"]
    by (simp add: rstrip_sep_def suffix_to_prefix)
  show ?thesis
    unfolding dirname_def Let_def using h r prefix_order.order_trans by auto
qed

lemma dirname_shorter: "dirname p \<noteq> p \<Longrightarrow> length (dirname p) < length p"
  using dirname_prefix [of p] by (metis prefix_length_less strict_prefix_def)

text \<open>The exceptions the handler of \<^verbatim>\<open>get_tsconfig_base_url\<close> names.\<close>

definition caught :: "error \<Rightarrow> bool" where
  "caught e = (e = JSONDecodeError \<or> e = OSError)"

text \<open>
  The loop of \<^verbatim>\<open>get_tsconfig_base_url\<close>, from \<open>current_dir\<close> upwards; the result
  \<^verbatim>\<open>None\<close> is \<open>JNull\<close>.  A configuration that loads decides the outcome: the value
  under \<^verbatim>\<open>compilerOptions.baseUrl\<close> (\<^verbatim>\<open>None\<close> when a key is absent), or the
  \<^verbatim>\<open>AttributeError\<close> of a \<^verbatim>\<open>get\<close> on something that is no dictionary.  A
  \<^verbatim>\<open>JSONDecodeError\<close> or \<^verbatim>\<open>OSError\<close> is passed over and the walk goes on with
  the parent; any other exception leaves the function.
\<close>

function get_tsconfig_base_url_loop :: "fs \<Rightarrow> string \<Rightarrow> error + json" where
  "get_tsconfig_base_url_loop env current_dir =
     (let tsconfig_path = join current_dir ''tsconfig.json'';
          parent = dirname current_dir
      in if isfile env tsconfig_path then
           (case load_json env tsconfig_path of
              Inr tsconfig \<Rightarrow>
                (case dict_get tsconfig ''compilerOptions'' (JObject []) of
                   Inl e \<Rightarrow> Inl e
                 | Inr compiler_opts \<Rightarrow> dict_get compiler_opts ''baseUrl'' JNull)
            | Inl e \<Rightarrow>
                if caught e then
                  (if parent = current_dir then Inr JNull
                   else get_tsconfig_base_url_loop env parent)
                else Inl e)
         else if parent = current_dir then Inr JNull
         else get_tsconfig_base_url_loop env parent)"
  by pat_completeness auto
termination
  by (relation "measure (\<lambda>(env, d). length d)") (auto simp: dirname_shorter)

declare get_tsconfig_base_url_loop.simps [simp del]

definition get_tsconfig_base_url :: "fs \<Rightarrow> string \<Rightarrow> error + json" where
  "get_tsconfig_base_url env start_dir = get_tsconfig_base_url_loop env (abspath env start_dir)"

text \<open>\<^verbatim>\<open>find_tsconfig_json\<close> and \<^verbatim>\<open>find_tsconfig_dir\<close>: the same walk, returning the
  path of the configuration file, or its directory.\<close>

function find_tsconfig_json_loop :: "fs \<Rightarrow> string \<Rightarrow> string option" where
  "find_tsconfig_json_loop env current_dir =
     (let tsconfig_path = join current_dir ''tsconfig.json'';
          parent_dir = dirname current_dir
      in if isfile env tsconfig_path then Some tsconfig_path
         else if parent_dir = current_dir then None
         else find_tsconfig_json_loop env parent_dir)"
  by pat_completeness auto
termination
  by (relation "measure (\<lambda>(env, d). length d)") (auto simp: dirname_shorter)

declare find_tsconfig_json_loop.simps [simp del]

definition find_tsconfig_json :: "fs \<Rightarrow> string \<Rightarrow> string option" where
  "find_tsconfig_json env start_dir = find_tsconfig_json_loop env (abspath env start_dir)"

function find_tsconfig_dir_loop :: "fs \<Rightarrow> string \<Rightarrow> string option" where
  "find_tsconfig_dir_loop env current_dir =
     (let tsconfig_path = join current_dir ''tsconfig.json'';
          parent_dir = dirname current_dir
      in if isfile env tsconfig_path then Some current_dir
         else if parent_dir = current_dir then None
         else find_tsconfig_dir_loop env parent_dir)"
  by pat_completeness auto
termination
  by (relation "measure (\<lambda>(env, d). length d)") (auto simp: dirname_shorter)

declare find_tsconfig_dir_loop.simps [simp del]

definition find_tsconfig_dir :: "fs \<Rightarrow> string \<Rightarrow> string option" where
  "find_tsconfig_dir env start_dir = find_tsconfig_dir_loop env (abspath env start_dir)"

text \<open>The dictionary \<^verbatim>\<open>parse_tsconfig\<close> returns.\<close>

record tsconfig_info =
  info_baseUrl :: json
  info_paths :: json
  tsconfigDir :: "string option"

text \<open>
  \<^verbatim>\<open>parse_tsconfig\<close>: the default for a missing path; otherwise the file is loaded
  and read with no handler around it, so every failure of \<^verbatim>\<open>json.load\<close> and of
  the \<^verbatim>\<open>get\<close> calls leaves the function as an exception.
\<close>

definition parse_tsconfig :: "fs \<Rightarrow> string option \<Rightarrow> error + tsconfig_info" where
  "parse_tsconfig env tsconfig_path =
     (case tsconfig_path of
        None \<Rightarrow> Inr \<lparr>info_baseUrl = JNull, info_paths = JObject [], tsconfigDir = None\<rparr>
      | Some p \<Rightarrow>
          if p = [] \<or> \<not> isfile env p
          then Inr \<lparr>info_baseUrl = JNull, info_paths = JObject [], tsconfigDir = None\<rparr>
          else
            (case load_json env p of
               Inl e \<Rightarrow> Inl e
             | Inr config \<Rightarrow>
                 (case dict_get config ''compilerOptions'' (JObject []) of
                    Inl e \<Rightarrow> Inl e
                  | Inr compiler_opts \<Rightarrow>
                      (case dict_get compiler_opts ''baseUrl'' JNull of
                         Inl e \<Rightarrow> Inl e
                       | Inr base_url \<Rightarrow>
                           (case dict_get compiler_opts ''paths'' (JObject []) of
                              Inl e \<Rightarrow> Inl e
                            | Inr paths \<Rightarrow>
                                Inr \<lparr>info_baseUrl = base_url, info_paths = paths,
                                     tsconfigDir = Some (dirname (abspath env p))\<rparr>)))))"

section \<open>Resolving an import\<close>

definition potential_extensions :: "string list" where
  "potential_extensions = [''.ts'', ''.tsx'', ''.js'', ''.jsx'']"

text \<open>
  Step 1 of \<^verbatim>\<open>resolve_import_path\<close>: the rewriting of an \<^verbatim>\<open>@/\<close> specifier.
  The lookup is made for such a specifier only; its exceptions pass through, and
  \<^verbatim>\<open>os.path.join\<close> raises \<^verbatim>\<open>TypeError\<close> on a \<^verbatim>\<open>baseUrl\<close> that is true in
  the condition and no text.
\<close>

definition map_alias :: "fs \<Rightarrow> string \<Rightarrow> string \<Rightarrow> error + string" where
  "map_alias env base_dir import_path =
     (if startswith import_path ''@/'' then
        (case get_tsconfig_base_url env base_dir of
           Inl e \<Rightarrow> Inl e
         | Inr base_url \<Rightarrow>
             if truthy base_url then
               (case base_url of
                  JString b \<Rightarrow> Inr (join b (drop 2 import_path))
                | _ \<Rightarrow> Inl TypeError)
             else Inr (drop 2 import_path))
      else Inr import_path)"

text \<open>Step 2: the first extension whose direct candidate is a file.\<close>

fun try_extensions :: "fs \<Rightarrow> string \<Rightarrow> string \<Rightarrow> string list \<Rightarrow> string option" where
  "try_extensions env base_dir import_path [] = None"
| "try_extensions env base_dir import_path (ext # exts) =
     (let candidate = join base_dir (import_path @ ext)
      in if isfile env candidate then Some (abspath env candidate)
         else try_extensions env base_dir import_path exts)"

text \<open>Step 3: the first extension whose index candidate is a file.\<close>

fun try_index :: "fs \<Rightarrow> string \<Rightarrow> string \<Rightarrow> string list \<Rightarrow> string option" where
  "try_index env base_dir import_path [] = None"
| "try_index env base_dir import_path (ext # exts) =
     (let candidate_index = join (join base_dir import_path) (''index'' @ ext)
      in if isfile env candidate_index then Some (abspath env candidate_index)
         else try_index env base_dir import_path exts)"

definition resolve_import_path :: "fs \<Rightarrow> string \<Rightarrow> string \<Rightarrow> error + string option" where
  "resolve_import_path env base_dir import_path0 =
     (case map_alias env base_dir import_path0 of
        Inl e \<Rightarrow> Inl e
      | Inr import_path \<Rightarrow>
          Inr (case try_extensions env base_dir import_path potential_extensions of
                 Some found \<Rightarrow> Some found
               | None \<Rightarrow> try_index env base_dir import_path potential_extensions))"

section \<open>Scanning a file\<close>

record imports_info =
  "file" :: string
  "imports" :: "string list"

definition read_file_bytes :: "fs \<Rightarrow> string \<Rightarrow> error + string" where
  "read_file_bytes env file_path = read_bytes env file_path"

definition parse_file :: "fs \<Rightarrow> string \<Rightarrow> error + node" where
  "parse_file env file_path =
     (case read_file_bytes env file_path of
        Inl e \<Rightarrow> Inl e
      | Inr file_bytes \<Rightarrow> Inr (parser_ts env file_bytes))"

text \<open>
  The specifier of a node: for an \<^verbatim>\<open>import_statement\<close> with a child of type
  \<^verbatim>\<open>string\<close>, the bytes of the first such child, decoded and with the quotes
  stripped, or the \<^verbatim>\<open>UnicodeDecodeError\<close> of the decoding.
\<close>

definition import_path_of :: "string \<Rightarrow> node \<Rightarrow> (error + string) option" where
  "import_path_of file_bytes n =
     (if node_type n = ''import_statement'' then
        (case find (\<lambda>child. node_type child = ''string'') (children n) of
           None \<Rightarrow> None
         | Some import_path_node \<Rightarrow>
             Some (case decode_utf8
                          (slice file_bytes (start_byte import_path_node)
                             (end_byte import_path_node)) of
                     Inl e \<Rightarrow> Inl e
                   | Inr raw_text \<Rightarrow> Inr (strip (CHR 0x27) (strip (CHR 0x22) raw_text))))
      else None)"

text \<open>
  What one specifier adds to the list: nothing when it starts with \<^verbatim>\<open>next\<close>, the
  resolved path or else the specifier itself when it looks local, the specifier itself
  otherwise.  An exception of the resolver passes through.
\<close>

definition add_import :: "fs \<Rightarrow> string \<Rightarrow> string \<Rightarrow> string list \<Rightarrow> error + string list" where
  "add_import env base_dir import_path acc =
     (if startswith import_path ''next'' then Inr acc
      else if startswith import_path ''.'' \<or> startswith import_path ''/''
              \<or> startswith import_path ''@'' then
        (case resolve_import_path env base_dir import_path of
           Inl e \<Rightarrow> Inl e
         | Inr None \<Rightarrow> Inr (acc @ [import_path])
         | Inr (Some full_path) \<Rightarrow>
             if full_path \<noteq> [] then Inr (acc @ [full_path]) else Inr (acc @ [import_path]))
      else Inr (acc @ [import_path]))"

text \<open>The body of the loop over the nodes of the tree, and the loop.\<close>

definition scan_node ::
  "fs \<Rightarrow> string \<Rightarrow> string \<Rightarrow> string list \<Rightarrow> node \<Rightarrow> error + string list" where
  "scan_node env base_dir file_bytes acc n =
     (case import_path_of file_bytes n of
        None \<Rightarrow> Inr acc
      | Some (Inl e) \<Rightarrow> Inl e
      | Some (Inr import_path) \<Rightarrow> add_import env base_dir import_path acc)"

fun scan_nodes ::
  "fs \<Rightarrow> string \<Rightarrow> string \<Rightarrow> node list \<Rightarrow> string list \<Rightarrow> error + string list" where
  "scan_nodes env base_dir file_bytes [] acc = Inr acc"
| "scan_nodes env base_dir file_bytes (n # ns) acc =
     (case scan_node env base_dir file_bytes acc n of
        Inl e \<Rightarrow> Inl e
      | Inr acc' \<Rightarrow> scan_nodes env base_dir file_bytes ns acc')"

definition extract_imports :: "fs \<Rightarrow> string \<Rightarrow> error + imports_info" where
  "extract_imports env file_path =
     (case parse_file env file_path of
        Inl e \<Rightarrow> Inl e
      | Inr tree \<Rightarrow>
          (case read_file_bytes env file_path of
             Inl e \<Rightarrow> Inl e
           | Inr file_bytes \<Rightarrow>
               (case scan_nodes env (dirname file_path) file_bytes (traverse_tree tree) [] of
                  Inl e \<Rightarrow> Inl e
                | Inr found \<Rightarrow> Inr \<lparr>file = file_path, imports = found\<rparr>)))"

text \<open>The scanning loop of \<^verbatim>\<open>main.py\<close>: no handler surrounds the call.\<close>

fun scan_files :: "fs \<Rightarrow> string list \<Rightarrow> imports_info list \<Rightarrow> error + imports_info list" where
  "scan_files env [] dependencies = Inr dependencies"
| "scan_files env (fpath # ts_files) dependencies =
     (case extract_imports env fpath of
        Inl e \<Rightarrow> Inl e
      | Inr info \<Rightarrow> scan_files env ts_files (dependencies @ [info]))"

text \<open>
  The specifiers of a file in document order: those of the nodes of its tree, listed
  parents first and children from left to right; and what the scanner makes of such a
  list, one specifier after the other.
\<close>

definition specifiers :: "string \<Rightarrow> node \<Rightarrow> (error + string) list" where
  "specifiers file_bytes tree = List.map_filter (import_path_of file_bytes) (preorder tree)"

fun scan_specifiers ::
  "fs \<Rightarrow> string \<Rightarrow> (error + string) list \<Rightarrow> string list \<Rightarrow> error + string list" where
  "scan_specifiers env base_dir [] acc = Inr acc"
| "scan_specifiers env base_dir (Inl e # specs) acc = Inl e"
| "scan_specifiers env base_dir (Inr import_path # specs) acc =
     (case add_import env base_dir import_path acc of
        Inl e \<Rightarrow> Inl e
      | Inr acc' \<Rightarrow> scan_specifiers env base_dir specs acc')"

text \<open>A specifier that decoded and begins with \<^verbatim>\<open>next\<close>.\<close>

fun next_specifier :: "error + string \<Rightarrow> bool" where
  "next_specifier (Inl e) = False"
| "next_specifier (Inr import_path) = startswith import_path ''next''"

section \<open>The graph store\<close>

text \<open>
  The store holds \<^verbatim>\<open>File\<close> nodes, identified by their \<^verbatim>\<open>path\<close>, and
  \<^verbatim>\<open>IMPORTS\<close> relationships between them.  \<^verbatim>\<open>merge\<close> creates what is absent and
  leaves what is present.
\<close>

record graph =
  nodes :: "string list"
  rels :: "(string \<times> string) list"

definition delete_all :: "graph \<Rightarrow> graph" where
  "delete_all g = \<lparr>nodes = [], rels = []\<rparr>"

definition merge_node :: "string \<Rightarrow> graph \<Rightarrow> graph" where
  "merge_node path g = (if path \<in> set (nodes g) then g else g\<lparr>nodes := nodes g @ [path]\<rparr>)"

definition merge_rel :: "string \<Rightarrow> string \<Rightarrow> graph \<Rightarrow> graph" where
  "merge_rel src tgt g =
     (if (src, tgt) \<in> set (rels g) then g else g\<lparr>rels := rels g @ [(src, tgt)]\<rparr>)"

text \<open>The inner loop of \<^verbatim>\<open>create_file_dependency_graph\<close>, over one record's imports.\<close>

fun add_imports :: "string \<Rightarrow> string list \<Rightarrow> graph \<Rightarrow> graph" where
  "add_imports source_file [] g = g"
| "add_imports source_file (imported_file # rest) g =
     (if imported_file = [] then add_imports source_file rest g
      else add_imports source_file rest
             (merge_rel source_file imported_file (merge_node imported_file g)))"

fun add_records :: "imports_info list \<Rightarrow> graph \<Rightarrow> graph" where
  "add_records [] g = g"
| "add_records (fi # rest) g =
     add_records rest (add_imports (file fi) (imports fi) (merge_node (file fi) g))"

definition create_file_dependency_graph :: "imports_info list \<Rightarrow> graph \<Rightarrow> graph" where
  "create_file_dependency_graph files_import_info g =
     add_records files_import_info (delete_all g)"

section \<open>Querying transitive dependencies\<close>

text \<open>\<^verbatim>\<open>CONTAINS\<close>: the text occurs somewhere in the path.\<close>

definition contains :: "string \<Rightarrow> string \<Rightarrow> bool" where
  "contains s sub = list_ex (prefix sub) (suffixes s)"

text \<open>
  The rows of the query: one for each node whose path contains \<^verbatim>\<open>/app/\<close>, with the
  paths of the nodes reached over one or more \<^verbatim>\<open>IMPORTS\<close> relationships, collected
  without duplicates.
\<close>

definition run_query :: "graph \<Rightarrow> (string \<times> string list) list" where
  "run_query g =
     map (\<lambda>f. (f, remdups (filter (\<lambda>dep. (f, dep) \<in> (set (rels g))\<^sup>+) (nodes g))))
       (filter (\<lambda>f. contains f ''/app/'') (nodes g))"

text \<open>The loop of \<^verbatim>\<open>get_app_folder_dependencies\<close> over the rows.\<close>

fun dependency_loop ::
  "(string \<times> string list) list \<Rightarrow> (string \<rightharpoonup> string list) \<Rightarrow> (string \<rightharpoonup> string list)" where
  "dependency_loop [] dependency_map = dependency_map"
| "dependency_loop ((file_path, deps) # results) dependency_map =
     dependency_loop results
       (dependency_map(file_path \<mapsto>
          (if file_path \<in> set deps then remove1 file_path deps else deps)))"

definition get_app_folder_dependencies :: "graph \<Rightarrow> (string \<rightharpoonup> string list)" where
  "get_app_folder_dependencies g = dependency_loop (run_query g) Map.empty"

section \<open>Scenarios\<close>

text \<open>A store with an import cycle between two files under \<^verbatim>\<open>/app/\<close>.\<close>

definition cyclic_graph :: graph where
  "cyclic_graph =
     \<lparr>nodes = [''/p/app/a.tsx'', ''/p/app/b.tsx'', ''/p/lib/c.ts''],
      rels = [(''/p/app/a.tsx'', ''/p/app/b.tsx''), (''/p/app/b.tsx'', ''/p/app/a.tsx''),
              (''/p/app/b.tsx'', ''/p/lib/c.ts'')]\<rparr>"

text \<open>
  A file system without links in which every directory named on the way to a file
  exists, given by its working directory, the contents of its regular files under their
  absolute normalized paths, what \<^verbatim>\<open>json.load\<close> does with those of them that are
  more than malformed JSON, and the trees the parser builds.
\<close>

definition plain_fs ::
  "string \<Rightarrow> (string \<times> string) list \<Rightarrow> (string \<times> (error + json)) list
     \<Rightarrow> (string \<times> node) list \<Rightarrow> fs" where
  "plain_fs wd files configs trees =
     \<lparr>cwd = wd,
      isfile = (\<lambda>p. map_of files (normpath (if isabs p then p else join wd p)) \<noteq> None),
      read_bytes = (\<lambda>p.
        case map_of files (normpath (if isabs p then p else join wd p)) of
          None \<Rightarrow> Inl OSError
        | Some file_bytes \<Rightarrow> Inr file_bytes),
      load_json = (\<lambda>p.
        case map_of files (normpath (if isabs p then p else join wd p)) of
          None \<Rightarrow> Inl OSError
        | Some file_bytes \<Rightarrow>
            (case map_of configs (normpath (if isabs p then p else join wd p)) of
               None \<Rightarrow> Inl JSONDecodeError
             | Some outcome \<Rightarrow> outcome)),
      parser_ts = (\<lambda>file_bytes.
        case map_of trees file_bytes of
          None \<Rightarrow> Node ''program'' 0 (length file_bytes) []
        | Some tree \<Rightarrow> tree)\<rparr>"

text \<open>The tree of a file that consists of one import whose string spans the given bytes.\<close>

definition one_import_tree :: "nat \<Rightarrow> nat \<Rightarrow> nat \<Rightarrow> node" where
  "one_import_tree len s e =
     Node ''program'' 0 len
       [Node ''import_statement'' 0 len
          [Node ''import'' 0 6 [], Node ''import_clause'' 7 8 [Node ''identifier'' 7 8 []],
           Node ''from'' 9 13 [], Node ''string'' s e [Node ''string_fragment'' (s + 1) (e - 1) []],
           Node '';'' e len []]]"

text \<open>A component next to a directory of the same name that has an index file.\<close>

definition components_fs :: fs where
  "components_fs =
     plain_fs ''/proj''
       [(''/proj/components/x.tsx'', ''export const x = 1;''),
        (''/proj/components/x/index.tsx'', ''export const x = 2;'')]
       [] []"

text \<open>
  A project whose configuration sets \<^verbatim>\<open>baseUrl\<close> to \<^verbatim>\<open>src\<close>, with a module
  under \<^verbatim>\<open>src\<close>, a page under \<^verbatim>\<open>app\<close>, and a file beside the configuration
  that imports an alias no file stands for.
\<close>

definition src_config :: json where
  "src_config =
     JObject [(''compilerOptions'', JObject [(''baseUrl'', JString ''src''), (''paths'', JObject [])])]"

definition home_tsx :: string where
  "home_tsx = ''import m from '@/missing';''"

definition alias_fs :: fs where
  "alias_fs =
     plain_fs ''/p''
       [(''/p/tsconfig.json'', ''{}''),
        (''/p/home.tsx'', home_tsx),
        (''/p/src/x.ts'', ''export const x = 1;''),
        (''/p/app/page.tsx'', ''import x from '@/x';''),
        (''/p/app/src/y.ts'', ''export const y = 1;'')]
       [(''/p/tsconfig.json'', Inr src_config)]
       [(home_tsx, one_import_tree 26 14 25)]"

text \<open>The same project with a second, malformed configuration file under \<^verbatim>\<open>app\<close>.\<close>

definition malformed_fs :: fs where
  "malformed_fs =
     plain_fs ''/p''
       [(''/p/tsconfig.json'', ''{}''),
        (''/p/app/tsconfig.json'', ''{compilerOptions:'')]
       [(''/p/tsconfig.json'', Inr src_config)]
       []"

text \<open>
  A project whose configuration has \<^verbatim>\<open>null\<close> under \<^verbatim>\<open>compilerOptions\<close>, with a
  page that imports an alias no file stands for, and below it a directory whose own
  configuration is malformed, and one whose own configuration is not UTF-8.
\<close>

definition page_tsx :: string where
  "page_tsx = ''import z from '@/zzz';''"

definition null_options_fs :: fs where
  "null_options_fs =
     plain_fs ''/p''
       [(''/p/tsconfig.json'', ''{}''),
        (''/p/app/page.tsx'', page_tsx),
        (''/p/bad/tsconfig.json'', ''{compilerOptions:''),
        (''/p/latin/tsconfig.json'', ''{}'')]
       [(''/p/tsconfig.json'', Inr (JObject [(''compilerOptions'', JNull)])),
        (''/p/latin/tsconfig.json'', Inl UnicodeDecodeError)]
       [(page_tsx, one_import_tree 22 14 21)]"

text \<open>
  A source tree scanned from the working directory \<^verbatim>\<open>/w\<close>: \<^verbatim>\<open>app/a.tsx\<close>
  imports a sibling, a package and a framework module; \<^verbatim>\<open>app/b.tsx\<close> imports
  nothing; \<^verbatim>\<open>app/c.tsx\<close> imports a sibling that does not exist.
\<close>

definition a_tsx :: string where
  "a_tsx = ''import b from './b'; import _ from 'lodash'; import r from 'next/router';''"

definition a_tree :: node where
  "a_tree =
     Node ''program'' 0 73
       [Node ''import_statement'' 0 20
          [Node ''import'' 0 6 [], Node ''import_clause'' 7 8 [Node ''identifier'' 7 8 []],
           Node ''from'' 9 13 [], Node ''string'' 14 19 [Node ''string_fragment'' 15 18 []],
           Node '';'' 19 20 []],
        Node ''import_statement'' 21 44
          [Node ''import'' 21 27 [], Node ''import_clause'' 28 29 [Node ''identifier'' 28 29 []],
           Node ''from'' 30 34 [], Node ''string'' 35 43 [Node ''string_fragment'' 36 42 []],
           Node '';'' 43 44 []],
        Node ''import_statement'' 45 73
          [Node ''import'' 45 51 [], Node ''import_clause'' 52 53 [Node ''identifier'' 52 53 []],
           Node ''from'' 54 58 [], Node ''string'' 59 72 [Node ''string_fragment'' 60 71 []],
           Node '';'' 72 73 []]]"

definition c_tsx :: string where
  "c_tsx = ''import m from './missing';''"

definition scan_fs :: fs where
  "scan_fs =
     plain_fs ''/w''
       [(''/w/app/a.tsx'', a_tsx), (''/w/app/b.tsx'', ''export const b = 1;''),
        (''/w/app/c.tsx'', c_tsx)]
       []
       [(a_tsx, a_tree), (c_tsx, one_import_tree 26 14 25)]"

section \<open>The traversal is pre-order\<close>

lemma traverse_loop_siblings:
  assumes "\<And>r up. r \<in> set rs \<Longrightarrow> traverse_loop (r, up) False = preorder r @ traverse_loop (r, up) True"
  shows "traverse_loop (n, (p, rs) # up) True = concat (map preorder rs) @ traverse_loop (p, up) True"
  using assms
proof (induction rs arbitrary: n)
  case Nil
  show ?case by (subst traverse_loop.simps) simp
next
  case (Cons r rs)
  have "traverse_loop (n, (p, r # rs) # up) True = traverse_loop (r, (p, rs) # up) False"
    by (subst traverse_loop.simps) simp
  also have "\<dots> = preorder r @ traverse_loop (r, (p, rs) # up) True"
    using Cons.prems by simp
  also have "traverse_loop (r, (p, rs) # up) True = concat (map preorder rs) @ traverse_loop (p, up) True"
    using Cons.IH Cons.prems by simp
  finally show ?case by simp
qed

lemma traverse_loop_preorder:
  "traverse_loop (n, up) False = preorder n @ traverse_loop (n, up) True"
proof (induction n arbitrary: up)
  case (Node t s e cs)
  show ?case
  proof (cases cs)
    case Nil
    then show ?thesis by (subst traverse_loop.simps) simp
  next
    case (Cons c rest)
    have "traverse_loop (Node t s e cs, up) False
            = Node t s e cs # traverse_loop (c, (Node t s e cs, rest) # up) False"
      using Cons by (subst traverse_loop.simps) simp
    also have "traverse_loop (c, (Node t s e cs, rest) # up) False
            = preorder c @ traverse_loop (c, (Node t s e cs, rest) # up) True"
      using Node.IH [of c] Cons by simp
    also have "traverse_loop (c, (Node t s e cs, rest) # up) True
            = concat (map preorder rest) @ traverse_loop (Node t s e cs, up) True"
      using Node.IH Cons by (intro traverse_loop_siblings) simp
    finally show ?thesis using Cons by simp
  qed
qed

lemma traverse_tree_preorder: "traverse_tree tree = preorder tree"
proof -
  have "traverse_loop (tree, []) True = []"
    by (subst traverse_loop.simps) simp
  then show ?thesis
    by (simp add: traverse_tree_def traverse_loop_preorder)
qed

section \<open>Properties of the graph store\<close>

lemma rels_merge_node: "rels (merge_node p g) = rels g"
  by (simp add: merge_node_def)

lemma set_rels_merge_rel: "set (rels (merge_rel s t g)) = insert (s, t) (set (rels g))"
  by (auto simp: merge_rel_def)

lemma set_rels_add_imports:
  "set (rels (add_imports s is g)) = set (rels g) \<union> {(s, i) | i. i \<in> set is \<and> i \<noteq> []}"
  by (induction "is" arbitrary: g) (auto simp: rels_merge_node set_rels_merge_rel)

lemma set_rels_add_records:
  "set (rels (add_records recs g)) =
     set (rels g) \<union> {(file r, i) | r i. r \<in> set recs \<and> i \<in> set (imports r) \<and> i \<noteq> []}"
  by (induction recs arbitrary: g) (auto simp: set_rels_add_imports rels_merge_node)

text \<open>
  Claim C2, as stated: after \<^verbatim>\<open>create_file_dependency_graph\<close> the store has no
  self-loop, a record's own path among its imports being filtered before the edge is
  created.  The loop filters empty entries only: a record that lists its own path gets
  an \<^verbatim>\<open>IMPORTS\<close> relationship from its node to itself.
\<close>

theorem self_import_creates_self_loop:
  "(''/w/app/a.ts'', ''/w/app/a.ts'') \<in> set (rels (create_file_dependency_graph
      [\<lparr>file = ''/w/app/a.ts'', imports = [''/w/app/a.ts'']\<rparr>] \<lparr>nodes = [], rels = []\<rparr>))"
  by (simp add: create_file_dependency_graph_def delete_all_def merge_node_def merge_rel_def)

text \<open>
  Claim C2, amended: whatever the store held before, after
  \<^verbatim>\<open>create_file_dependency_graph\<close> its \<^verbatim>\<open>IMPORTS\<close> relationships are exactly the
  pairs of a record's file path and a non-empty entry of that record's imports list;
  an entry equal to the record's own path is kept like any other.
\<close>

theorem create_file_dependency_graph_rels:
  "set (rels (create_file_dependency_graph files_import_info g)) =
     {(file fi, imported_file) | fi imported_file.
        fi \<in> set files_import_info \<and> imported_file \<in> set (imports fi) \<and> imported_file \<noteq> []}"
  by (simp add: create_file_dependency_graph_def set_rels_add_records delete_all_def)

theorem create_file_dependency_graph_rels_witness:
  "set (rels (create_file_dependency_graph
      [\<lparr>file = ''/w/app/a.ts'', imports = [''/w/app/a.ts'', [], ''react'']\<rparr>]
      \<lparr>nodes = [''old''], rels = [(''old'', ''old'')]\<rparr>))
   = {(''/w/app/a.ts'', ''/w/app/a.ts''), (''/w/app/a.ts'', ''react'')}"
  using create_file_dependency_graph_rels
    [of "[\<lparr>file = ''/w/app/a.ts'', imports = [''/w/app/a.ts'', [], ''react'']\<rparr>]"
        "\<lparr>nodes = [''old''], rels = [(''old'', ''old'')]\<rparr>"]
  by auto

section \<open>Properties of the dependency query\<close>

lemma run_query_row:
  "(f, deps) \<in> set (run_query g) \<Longrightarrow>
     distinct deps \<and> set deps = {dep \<in> set (nodes g). (f, dep) \<in> (set (rels g))\<^sup>+}"
  by (auto simp: run_query_def)

lemma dependency_loop_invariant:
  assumes "\<And>f ds. (f, ds) \<in> set results \<Longrightarrow> P f (if f \<in> set ds then remove1 f ds else ds)"
      and "\<And>f ds. m f = Some ds \<Longrightarrow> P f ds"
      and "dependency_loop results m file_path = Some deps"
  shows "P file_path deps"
  using assms
proof (induction results arbitrary: m)
  case Nil
  then show ?case by simp
next
  case (Cons row results)
  obtain f ds where row: "row = (f, ds)" by (cases row)
  let ?m = "m(f \<mapsto> (if f \<in> set ds then remove1 f ds else ds))"
  have here: "P f (if f \<in> set ds then remove1 f ds else ds)"
    using Cons.prems(1) [of f ds] row by simp
  have inv: "P f' ds'" if "?m f' = Some ds'" for f' ds'
    using that Cons.prems(2) here by (auto split: if_splits)
  have rest: "P f' (if f' \<in> set ds' then remove1 f' ds' else ds')"
    if "(f', ds') \<in> set results" for f' ds'
    using that Cons.prems(1) [of f' ds'] by simp
  have run: "dependency_loop results ?m file_path = Some deps"
    using Cons.prems(3) row by simp
  show ?case
    using Cons.IH [of ?m, OF rest inv run] by blast
qed

lemma dom_dependency_loop: "dom (dependency_loop results m) = dom m \<union> fst ` set results"
proof (induction results arbitrary: m)
  case Nil
  then show ?case by simp
next
  case (Cons row results)
  obtain f ds where row: "row = (f, ds)" by (cases row)
  have "dom (m(f \<mapsto> x)) = insert f (dom m)" for x :: "string list"
    by simp
  then show ?case unfolding row dependency_loop.simps Cons.IH by auto
qed

lemma dom_get_app_folder_dependencies:
  "dom (get_app_folder_dependencies g) = {f \<in> set (nodes g). contains f ''/app/''}"
  by (auto simp: get_app_folder_dependencies_def dom_dependency_loop run_query_def image_iff)

text \<open>
  Claim C6: the list \<^verbatim>\<open>get_app_folder_dependencies\<close> returns for a file never
  contains the file's own path, also when the file lies on an import cycle: the list
  holds, once each, the nodes reached over one or more \<^verbatim>\<open>IMPORTS\<close>
  relationships, the file itself excepted.  The function is total: it returns for every
  store, cyclic or not.
\<close>

theorem get_app_folder_dependencies_no_self:
  assumes "get_app_folder_dependencies g file_path = Some deps"
  shows "file_path \<notin> set deps
         \<and> set deps = {dep \<in> set (nodes g). (file_path, dep) \<in> (set (rels g))\<^sup>+} - {file_path}
         \<and> distinct deps"
proof (rule dependency_loop_invariant
    [where results = "run_query g" and m = Map.empty and file_path = file_path and deps = deps])
  fix f ds
  assume "(f, ds) \<in> set (run_query g)"
  then have d: "distinct ds"
    and s: "set ds = {dep \<in> set (nodes g). (f, dep) \<in> (set (rels g))\<^sup>+}"
    using run_query_row by blast+
  let ?ds = "if f \<in> set ds then remove1 f ds else ds"
  have "set ?ds = set ds - {f}" using d by auto
  then show "f \<notin> set ?ds
         \<and> set ?ds = {dep \<in> set (nodes g). (f, dep) \<in> (set (rels g))\<^sup>+} - {f}
         \<and> distinct ?ds"
    using d s by auto
next
  fix f :: string and ds :: "string list"
  assume "Map.empty f = Some ds"
  then show "f \<notin> set ds
         \<and> set ds = {dep \<in> set (nodes g). (f, dep) \<in> (set (rels g))\<^sup>+} - {f}
         \<and> distinct ds"
    by simp
next
  show "dependency_loop (run_query g) Map.empty file_path = Some deps"
    using assms by (simp add: get_app_folder_dependencies_def)
qed

theorem get_app_folder_dependencies_no_self_witness:
  "(''/p/app/a.tsx'', ''/p/app/a.tsx'') \<in> (set (rels cyclic_graph))\<^sup>+
   \<and> get_app_folder_dependencies cyclic_graph ''/p/app/a.tsx''
       = Some [''/p/app/b.tsx'', ''/p/lib/c.ts'']
   \<and> ''/p/app/a.tsx'' \<notin> set [''/p/app/b.tsx'', ''/p/lib/c.ts'']"
proof -
  have c: "(''/p/app/a.tsx'', ''/p/app/a.tsx'') \<in> (set (rels cyclic_graph))\<^sup>+"
    by code_simp
  have e: "get_app_folder_dependencies cyclic_graph ''/p/app/a.tsx''
             = Some [''/p/app/b.tsx'', ''/p/lib/c.ts'']"
    by code_simp
  show ?thesis
    using c e get_app_folder_dependencies_no_self [OF e] by simp
qed

section \<open>Properties of the resolver\<close>

lemma try_extensions_first:
  assumes "i < length exts"
      and "isfile env (join base_dir (import_path @ exts ! i))"
      and "\<And>j. j < i \<Longrightarrow> \<not> isfile env (join base_dir (import_path @ exts ! j))"
  shows "try_extensions env base_dir import_path exts
           = Some (abspath env (join base_dir (import_path @ exts ! i)))"
  using assms
proof (induction exts arbitrary: i)
  case Nil
  then show ?case by simp
next
  case (Cons ext exts)
  show ?case
  proof (cases i)
    case 0
    then show ?thesis using Cons.prems(2) by simp
  next
    case (Suc k)
    have nf: "\<not> isfile env (join base_dir (import_path @ ext))"
      using Cons.prems(3) [of 0] Suc by simp
    have "try_extensions env base_dir import_path exts
            = Some (abspath env (join base_dir (import_path @ exts ! k)))"
    proof (rule Cons.IH)
      show "k < length exts" using Cons.prems(1) Suc by simp
      show "isfile env (join base_dir (import_path @ exts ! k))"
        using Cons.prems(2) Suc by simp
      show "\<not> isfile env (join base_dir (import_path @ exts ! j))" if "j < k" for j
        using Cons.prems(3) [of "Suc j"] that Suc by simp
    qed
    then show ?thesis using nf Suc by simp
  qed
qed

lemma try_index_first:
  assumes "i < length exts"
      and "isfile env (join (join base_dir import_path) (''index'' @ exts ! i))"
      and "\<And>j. j < i \<Longrightarrow> \<not> isfile env (join (join base_dir import_path) (''index'' @ exts ! j))"
  shows "try_index env base_dir import_path exts
           = Some (abspath env (join (join base_dir import_path) (''index'' @ exts ! i)))"
  using assms
proof (induction exts arbitrary: i)
  case Nil
  then show ?case by simp
next
  case (Cons ext exts)
  show ?case
  proof (cases i)
    case 0
    then show ?thesis using Cons.prems(2) by simp
  next
    case (Suc k)
    have nf: "\<not> isfile env (join (join base_dir import_path) (''index'' @ ext))"
      using Cons.prems(3) [of 0] Suc by simp
    have "try_index env base_dir import_path exts
            = Some (abspath env (join (join base_dir import_path) (''index'' @ exts ! k)))"
    proof (rule Cons.IH)
      show "k < length exts" using Cons.prems(1) Suc by simp
      show "isfile env (join (join base_dir import_path) (''index'' @ exts ! k))"
        using Cons.prems(2) Suc by simp
      show "\<not> isfile env (join (join base_dir import_path) (''index'' @ exts ! j))" if "j < k" for j
        using Cons.prems(3) [of "Suc j"] that Suc by simp
    qed
    then show ?thesis using nf Suc by simp
  qed
qed

lemma try_extensions_none:
  "try_extensions env base_dir import_path exts = None
     \<longleftrightarrow> list_all (\<lambda>ext. \<not> isfile env (join base_dir (import_path @ ext))) exts"
  by (induction exts) (auto simp: Let_def)



lemma map_alias_plain: "\<not> startswith spec ''@/'' \<Longrightarrow> map_alias env base_dir spec = Inr spec"
  by (simp add: map_alias_def)

lemma resolve_import_path_fails:
  "map_alias env base_dir spec = Inl e \<Longrightarrow> resolve_import_path env base_dir spec = Inl e"
  by (simp add: resolve_import_path_def)

lemma resolve_import_path_returns:
  "map_alias env base_dir spec = Inr import_path \<Longrightarrow>
     resolve_import_path env base_dir spec =
       Inr (case try_extensions env base_dir import_path potential_extensions of
              Some found \<Rightarrow> Some found
            | None \<Rightarrow> try_index env base_dir import_path potential_extensions)"
  by (simp add: resolve_import_path_def)

text \<open>
  Claim C5: \<^verbatim>\<open>resolve_import_path\<close> tries direct files before index files, with
  the extensions in the order \<^verbatim>\<open>.ts\<close>, \<^verbatim>\<open>.tsx\<close>, \<^verbatim>\<open>.js\<close>, \<^verbatim>\<open>.jsx\<close>
  in each phase.  The first extension whose direct candidate is a file decides the
  result, whatever index files exist; an index file is returned only when no direct
  candidate is a file, and then the first one in the same order.  The candidates are
  formed from the specifier as step 1 leaves it; where step 1 raises, so does the
  resolver.  The scenario of the claim (\<^verbatim>\<open>components/x.tsx\<close> beside
  \<^verbatim>\<open>components/x/index.tsx\<close>, no \<^verbatim>\<open>components/x.ts\<close>) is checked after the
  theorem.
\<close>

theorem resolve_import_path_precedence:
  assumes "i < length potential_extensions"
  shows "case map_alias env base_dir spec of
           Inl e \<Rightarrow> resolve_import_path env base_dir spec = Inl e
         | Inr import_path \<Rightarrow>
             (isfile env (join base_dir (import_path @ potential_extensions ! i))
              \<and> (\<forall>j<i. \<not> isfile env (join base_dir (import_path @ potential_extensions ! j)))
              \<longrightarrow> resolve_import_path env base_dir spec
                    = Inr (Some (abspath env (join base_dir (import_path @ potential_extensions ! i)))))
           \<and> ((\<forall>j<length potential_extensions.
                  \<not> isfile env (join base_dir (import_path @ potential_extensions ! j)))
              \<and> isfile env (join (join base_dir import_path) (''index'' @ potential_extensions ! i))
              \<and> (\<forall>j<i. \<not> isfile env (join (join base_dir import_path) (''index'' @ potential_extensions ! j)))
              \<longrightarrow> resolve_import_path env base_dir spec
                    = Inr (Some (abspath env (join (join base_dir import_path)
                                   (''index'' @ potential_extensions ! i)))))"
proof (cases "map_alias env base_dir spec")
  case (Inl e)
  then show ?thesis by (simp add: resolve_import_path_fails)
next
  case (Inr p)
  have direct: "resolve_import_path env base_dir spec
                  = Inr (Some (abspath env (join base_dir (p @ potential_extensions ! i))))"
    if a: "isfile env (join base_dir (p @ potential_extensions ! i))
           \<and> (\<forall>j<i. \<not> isfile env (join base_dir (p @ potential_extensions ! j)))"
  proof -
    have "try_extensions env base_dir p potential_extensions
            = Some (abspath env (join base_dir (p @ potential_extensions ! i)))"
      using assms a by (intro try_extensions_first) auto
    then show ?thesis by (simp add: resolve_import_path_returns [OF Inr])
  qed
  have index: "resolve_import_path env base_dir spec
                  = Inr (Some (abspath env (join (join base_dir p) (''index'' @ potential_extensions ! i))))"
    if a: "(\<forall>j<length potential_extensions. \<not> isfile env (join base_dir (p @ potential_extensions ! j)))
           \<and> isfile env (join (join base_dir p) (''index'' @ potential_extensions ! i))
           \<and> (\<forall>j<i. \<not> isfile env (join (join base_dir p) (''index'' @ potential_extensions ! j)))"
  proof -
    have "try_extensions env base_dir p potential_extensions = None"
      using a by (simp add: try_extensions_none list_all_length)
    moreover have "try_index env base_dir p potential_extensions
            = Some (abspath env (join (join base_dir p) (''index'' @ potential_extensions ! i)))"
      using assms a by (intro try_index_first) auto
    ultimately show ?thesis by (simp add: resolve_import_path_returns [OF Inr])
  qed
  show ?thesis
    unfolding Inr sum.case using direct index by blast
qed

theorem resolve_import_path_precedence_witness:
  "isfile components_fs ''/proj/components/x.tsx''
   \<and> isfile components_fs ''/proj/components/x/index.tsx''
   \<and> resolve_import_path components_fs ''/proj/components'' ''./x''
       = Inr (Some ''/proj/components/x.tsx'')"
proof -
  have i: "(1::nat) < length potential_extensions"
    by (simp add: potential_extensions_def)
  have m: "map_alias components_fs ''/proj/components'' ''./x'' = Inr ''./x''"
    by (simp add: map_alias_def startswith_def)
  have f1: "isfile components_fs (join ''/proj/components'' (''./x'' @ ''.tsx''))"
    by code_simp
  have f0: "\<not> isfile components_fs (join ''/proj/components'' (''./x'' @ ''.ts''))"
    by code_simp
  have a: "abspath components_fs (join ''/proj/components'' (''./x'' @ ''.tsx''))
             = ''/proj/components/x.tsx''"
    by code_simp
  have d: "isfile components_fs ''/proj/components/x.tsx''"
    "isfile components_fs ''/proj/components/x/index.tsx''"
    by code_simp+
  have "resolve_import_path components_fs ''/proj/components'' ''./x''
          = Inr (Some (abspath components_fs (join ''/proj/components'' (''./x'' @ ''.tsx''))))"
    using resolve_import_path_precedence [OF i, of components_fs "''/proj/components''" "''./x''"]
      f1 f0 by (simp add: m potential_extensions_def)
  then show ?thesis using a d by simp
qed

section \<open>Properties of the scanner\<close>

lemma scan_nodes_specifiers:
  "scan_nodes env base_dir file_bytes ns acc
     = scan_specifiers env base_dir (List.map_filter (import_path_of file_bytes) ns) acc"
proof (induction ns arbitrary: acc)
  case Nil
  then show ?case by (simp add: map_filter_simps)
next
  case (Cons n ns)
  show ?case
  proof (cases "import_path_of file_bytes n")
    case None
    then show ?thesis by (simp add: scan_node_def map_filter_simps Cons.IH)
  next
    case (Some x)
    then show ?thesis
      by (cases x) (simp_all add: scan_node_def map_filter_simps Cons.IH split: sum.splits)
  qed
qed

lemma extract_imports_fails:
  "read_bytes env file_path = Inl e \<Longrightarrow> extract_imports env file_path = Inl e"
  by (simp add: extract_imports_def parse_file_def read_file_bytes_def)

lemma extract_imports_reads:
  "read_bytes env file_path = Inr file_bytes \<Longrightarrow>
     extract_imports env file_path =
       (case scan_specifiers env (dirname file_path)
               (specifiers file_bytes (parser_ts env file_bytes)) [] of
          Inl e \<Rightarrow> Inl e
        | Inr found \<Rightarrow> Inr \<lparr>file = file_path, imports = found\<rparr>)"
  by (simp add: extract_imports_def parse_file_def read_file_bytes_def scan_nodes_specifiers
      traverse_tree_preorder specifiers_def)




lemma normpath_nonempty: "normpath p \<noteq> []"
  by (simp add: normpath_def Let_def)

lemma normpath_isabs: "isabs p \<Longrightarrow> isabs (normpath p)"
  by (cases p) (auto simp: normpath_def Let_def isabs_def startswith_def numeral_2_eq_2)

lemma join_isabs: "isabs a \<Longrightarrow> isabs (join a b)"
  by (cases a) (auto simp: join_def isabs_def startswith_def)

lemma abspath_isabs: "isabs (cwd env) \<Longrightarrow> isabs (abspath env p)"
  by (simp add: abspath_def normpath_isabs join_isabs)

lemma abspath_nonempty: "abspath env p \<noteq> []"
  by (simp add: abspath_def normpath_nonempty)

lemma try_extensions_abspath:
  "try_extensions env base_dir import_path exts = Some r \<Longrightarrow> \<exists>c. r = abspath env c"
  by (induction exts) (auto simp: Let_def split: if_splits)

lemma try_index_abspath:
  "try_index env base_dir import_path exts = Some r \<Longrightarrow> \<exists>c. r = abspath env c"
  by (induction exts) (auto simp: Let_def split: if_splits)

lemma resolve_import_path_abspath:
  "resolve_import_path env base_dir spec = Inr (Some r) \<Longrightarrow> \<exists>c. r = abspath env c"
  by (auto simp: resolve_import_path_def split: option.splits sum.splits
      dest: try_extensions_abspath try_index_abspath)

lemma resolve_import_path_isabs:
  "isabs (cwd env) \<Longrightarrow> resolve_import_path env base_dir spec = Inr (Some r) \<Longrightarrow> isabs r"
  using resolve_import_path_abspath abspath_isabs by blast

lemma isabs_not_next: "isabs s \<Longrightarrow> \<not> startswith s ''next''"
  by (cases s) (auto simp: isabs_def startswith_def)

lemma add_import_next: "startswith s ''next'' \<Longrightarrow> add_import env base_dir s acc = Inr acc"
  by (simp add: add_import_def)

lemma scan_specifiers_filter:
  "scan_specifiers env base_dir specs acc
     = scan_specifiers env base_dir (filter (\<lambda>x. \<not> next_specifier x) specs) acc"
  by (induction env base_dir specs acc rule: scan_specifiers.induct)
     (simp_all add: add_import_next split: sum.splits)

lemma add_import_no_next:
  assumes "isabs (cwd env)" and "\<forall>x\<in>set acc. \<not> startswith x ''next''"
      and "add_import env base_dir s acc = Inr acc'"
  shows "\<forall>x\<in>set acc'. \<not> startswith x ''next''"
proof (cases "resolve_import_path env base_dir s")
  case (Inl e)
  then show ?thesis using assms(2,3) by (auto simp: add_import_def split: if_splits)
next
  case (Inr r)
  show ?thesis
  proof (cases r)
    case None
    then show ?thesis using Inr assms(2,3) by (auto simp: add_import_def split: if_splits)
  next
    case (Some full_path)
    then have "\<not> startswith full_path ''next''"
      using Inr assms(1) resolve_import_path_isabs isabs_not_next by blast
    then show ?thesis
      using Inr Some assms(2,3) by (auto simp: add_import_def split: if_splits)
  qed
qed

lemma scan_specifiers_no_next:
  assumes "isabs (cwd env)"
      and "\<forall>x\<in>set acc. \<not> startswith x ''next''"
      and "scan_specifiers env base_dir specs acc = Inr found"
  shows "\<forall>x\<in>set found. \<not> startswith x ''next''"
  using assms(2,3)
proof (induction specs arbitrary: acc)
  case Nil
  then show ?case by simp
next
  case (Cons spec specs)
  show ?case
  proof (cases spec)
    case (Inl e)
    then show ?thesis using Cons.prems(2) by simp
  next
    case (Inr import_path)
    from Cons.prems(2) Inr obtain acc' where
      a: "add_import env base_dir import_path acc = Inr acc'"
      and s: "scan_specifiers env base_dir specs acc' = Inr found"
      by (auto split: sum.splits)
    have "\<forall>x\<in>set acc'. \<not> startswith x ''next''"
      using add_import_no_next [OF assms(1) Cons.prems(1) a] .
    then show ?thesis using Cons.IH s by blast
  qed
qed

text \<open>
  Claim C10: a specifier whose text begins with \<^verbatim>\<open>next\<close>, be it a framework
  module such as \<^verbatim>\<open>next/router\<close> or a package such as \<^verbatim>\<open>nextui\<close>, is dropped
  before it is classified: it adds nothing to the list, the outcome of scanning a file
  is that of scanning its other specifiers, and (the working directory being absolute,
  as \<^verbatim>\<open>os.getcwd\<close> returns it) no entry of a returned list begins with
  \<^verbatim>\<open>next\<close>.
\<close>

theorem next_specifiers_dropped:
  assumes "read_bytes env file_path = Inr file_bytes"
  shows "(\<forall>s acc. startswith s ''next'' \<longrightarrow> add_import env (dirname file_path) s acc = Inr acc)
       \<and> extract_imports env file_path =
           (case scan_specifiers env (dirname file_path)
                   (filter (\<lambda>x. \<not> next_specifier x)
                      (specifiers file_bytes (parser_ts env file_bytes))) [] of
              Inl e \<Rightarrow> Inl e
            | Inr found \<Rightarrow> Inr \<lparr>file = file_path, imports = found\<rparr>)
       \<and> (isabs (cwd env) \<longrightarrow>
            (\<forall>info. extract_imports env file_path = Inr info \<longrightarrow>
               (\<forall>x\<in>set (imports info). \<not> startswith x ''next'')))"
proof (intro conjI allI impI)
  show "add_import env (dirname file_path) s acc = Inr acc" if "startswith s ''next''" for s acc
    using that by (rule add_import_next)
  show "extract_imports env file_path =
           (case scan_specifiers env (dirname file_path)
                   (filter (\<lambda>x. \<not> next_specifier x)
                      (specifiers file_bytes (parser_ts env file_bytes))) [] of
              Inl e \<Rightarrow> Inl e
            | Inr found \<Rightarrow> Inr \<lparr>file = file_path, imports = found\<rparr>)"
    using extract_imports_reads [OF assms]
      scan_specifiers_filter [of env "dirname file_path"
        "specifiers file_bytes (parser_ts env file_bytes)" "[]"]
    by (simp only:)
  show "\<forall>x\<in>set (imports info). \<not> startswith x ''next''"
    if c: "isabs (cwd env)" and e: "extract_imports env file_path = Inr info" for info
  proof -
    from e obtain found where
      s: "scan_specifiers env (dirname file_path)
            (specifiers file_bytes (parser_ts env file_bytes)) [] = Inr found"
      and i: "info = \<lparr>file = file_path, imports = found\<rparr>"
      unfolding extract_imports_reads [OF assms] by (auto split: sum.splits)
    show ?thesis
      using scan_specifiers_no_next [OF c _ s] i by simp
  qed
qed

theorem next_specifiers_dropped_witness:
  "read_bytes scan_fs ''app/a.tsx'' = Inr a_tsx
   \<and> Inr ''next/router'' \<in> set (specifiers a_tsx (parser_ts scan_fs a_tsx))
   \<and> add_import scan_fs ''app'' ''nextui'' [''react''] = Inr [''react'']
   \<and> extract_imports scan_fs ''app/a.tsx''
       = Inr \<lparr>file = ''app/a.tsx'', imports = [''/w/app/b.tsx'', ''lodash'']\<rparr>"
proof -
  have r: "read_bytes scan_fs ''app/a.tsx'' = Inr a_tsx"
    by code_simp
  have s: "Inr ''next/router'' \<in> set (specifiers a_tsx (parser_ts scan_fs a_tsx))"
    by code_simp
  have d: "dirname ''app/a.tsx'' = ''app''"
    by code_simp
  have n: "startswith ''nextui'' ''next''"
    by code_simp
  have v: "scan_specifiers scan_fs ''app''
             (filter (\<lambda>x. \<not> next_specifier x) (specifiers a_tsx (parser_ts scan_fs a_tsx))) []
           = Inr [''/w/app/b.tsx'', ''lodash'']"
    by code_simp
  note t = next_specifiers_dropped [OF r, unfolded d]
  have "add_import scan_fs ''app'' ''nextui'' [''react''] = Inr [''react'']"
    using t n by blast
  moreover have "extract_imports scan_fs ''app/a.tsx''
       = Inr \<lparr>file = ''app/a.tsx'', imports = [''/w/app/b.tsx'', ''lodash'']\<rparr>"
    using t unfolding v by simp
  ultimately show ?thesis using r s by simp
qed

text \<open>
  Claim C7: when the specifiers of a file are \<^verbatim>\<open>./b\<close>, \<^verbatim>\<open>lodash\<close> and
  \<^verbatim>\<open>next/router\<close>, in this order, and \<^verbatim>\<open>b.tsx\<close> (and no \<^verbatim>\<open>b.ts\<close>) is
  a file next to it, \<^verbatim>\<open>extract_imports\<close> returns the absolute path of
  \<^verbatim>\<open>b.tsx\<close> followed by \<^verbatim>\<open>lodash\<close>, and nothing for \<^verbatim>\<open>next/router\<close>.
\<close>

theorem extract_imports_scenario:
  assumes "read_bytes env file_path = Inr file_bytes"
      and "specifiers file_bytes (parser_ts env file_bytes)
             = [Inr ''./b'', Inr ''lodash'', Inr ''next/router'']"
      and "isfile env (join (dirname file_path) ''./b.tsx'')"
      and "\<not> isfile env (join (dirname file_path) ''./b.ts'')"
  shows "extract_imports env file_path =
           Inr \<lparr>file = file_path,
                imports = [abspath env (join (dirname file_path) ''./b.tsx''), ''lodash'']\<rparr>"
proof -
  let ?d = "dirname file_path"
  have m: "map_alias env ?d ''./b'' = Inr ''./b''"
    by (simp add: map_alias_def startswith_def)
  have "try_extensions env ?d ''./b'' potential_extensions
          = Some (abspath env (join ?d ''./b.tsx''))"
    using assms(3,4) by (simp add: potential_extensions_def)
  then have r: "resolve_import_path env ?d ''./b'' = Inr (Some (abspath env (join ?d ''./b.tsx'')))"
    by (simp add: resolve_import_path_def m)
  have b: "add_import env ?d ''./b'' [] = Inr [abspath env (join ?d ''./b.tsx'')]"
    using r by (simp add: add_import_def startswith_def abspath_nonempty)
  have l: "add_import env ?d ''lodash'' acc = Inr (acc @ [''lodash''])" for acc
    by (simp add: add_import_def startswith_def)
  have n: "add_import env ?d ''next/router'' acc = Inr acc" for acc
    by (simp add: add_import_def startswith_def)
  show ?thesis
    using extract_imports_reads [OF assms(1)] by (simp add: assms(2) b l n)
qed

theorem extract_imports_scenario_witness:
  "extract_imports scan_fs ''/w/app/a.tsx'' =
     Inr \<lparr>file = ''/w/app/a.tsx'', imports = [''/w/app/b.tsx'', ''lodash'']\<rparr>"
proof -
  have r: "read_bytes scan_fs ''/w/app/a.tsx'' = Inr a_tsx"
    by code_simp
  have s: "specifiers a_tsx (parser_ts scan_fs a_tsx)
             = [Inr ''./b'', Inr ''lodash'', Inr ''next/router'']"
    by code_simp
  have y: "isfile scan_fs (join (dirname ''/w/app/a.tsx'') ''./b.tsx'')"
    by code_simp
  have n: "\<not> isfile scan_fs (join (dirname ''/w/app/a.tsx'') ''./b.ts'')"
    by code_simp
  have a: "abspath scan_fs (join (dirname ''/w/app/a.tsx'') ''./b.tsx'') = ''/w/app/b.tsx''"
    by code_simp
  show ?thesis
    using extract_imports_scenario [OF r s y n] unfolding a .
qed

lemma extract_imports_file: "extract_imports env p = Inr info \<Longrightarrow> file info = p"
  by (auto simp: extract_imports_def split: sum.splits)

lemma scan_files_append:
  assumes "\<forall>p\<in>set before. \<exists>info. extract_imports env p = Inr info"
  shows "\<exists>infos. map file infos = before
           \<and> scan_files env (before @ rest) dependencies = scan_files env rest (dependencies @ infos)"
  using assms
proof (induction before arbitrary: dependencies)
  case Nil
  then show ?case by simp
next
  case (Cons p before)
  then obtain info where e: "extract_imports env p = Inr info" by auto
  from Cons.IH [of "dependencies @ [info]"] Cons.prems
  obtain infos where i: "map file infos = before"
    and s: "scan_files env (before @ rest) (dependencies @ [info])
              = scan_files env rest ((dependencies @ [info]) @ infos)"
    by auto
  show ?case
    using e i s extract_imports_file [OF e] by (intro exI [of _ "info # infos"]) simp
qed

lemma scan_files_stops:
  assumes "extract_imports env bad = Inl e"
  shows "\<exists>e'. scan_files env (before @ bad # rest) dependencies = Inl e'"
  by (induction before arbitrary: dependencies) (simp_all add: assms split: sum.splits)

lemma scan_files_all_scanned:
  assumes "\<forall>p\<in>set ts_files. \<exists>info. extract_imports env p = Inr info"
  shows "\<exists>infos. map file infos = ts_files
           \<and> scan_files env ts_files dependencies = Inr (dependencies @ infos)"
  using scan_files_append [OF assms, of "[]" dependencies] by simp

text \<open>
  Claim C4, as stated: a file that cannot be read is skipped and the files after it are
  still scanned.  The loop has no handler: with an unreadable file first, the batch ends
  in its error although the second file scans without one.
\<close>

theorem unreadable_file_aborts_batch:
  "read_bytes scan_fs ''app/gone.tsx'' = Inl OSError
   \<and> extract_imports scan_fs ''app/b.tsx'' = Inr \<lparr>file = ''app/b.tsx'', imports = []\<rparr>
   \<and> scan_files scan_fs [''app/gone.tsx'', ''app/b.tsx''] [] = Inl OSError"
  by code_simp

text \<open>
  Claim C4, amended: when reading a file fails, \<^verbatim>\<open>extract_imports\<close> fails with
  that error and the scanning loop ends in an exception whatever the other files are: in
  that error when the files before it scan, and then the files after it are not
  scanned and no records are returned.
\<close>

theorem scan_files_aborts_on_read_failure:
  assumes "read_bytes env bad = Inl e"
  shows "extract_imports env bad = Inl e
         \<and> (\<exists>e'. scan_files env (before @ bad # rest) dependencies = Inl e')
         \<and> ((\<forall>p\<in>set before. \<exists>info. extract_imports env p = Inr info)
              \<longrightarrow> scan_files env (before @ bad # rest) dependencies = Inl e)"
proof (intro conjI impI)
  show x: "extract_imports env bad = Inl e"
    using assms by (rule extract_imports_fails)
  show "\<exists>e'. scan_files env (before @ bad # rest) dependencies = Inl e'"
    using x by (rule scan_files_stops)
  show "scan_files env (before @ bad # rest) dependencies = Inl e"
    if h: "\<forall>p\<in>set before. \<exists>info. extract_imports env p = Inr info"
  proof -
    obtain infos where
      "scan_files env (before @ bad # rest) dependencies
         = scan_files env (bad # rest) (dependencies @ infos)"
      using scan_files_append [OF h] by blast
    then show ?thesis using x by simp
  qed
qed

theorem scan_files_aborts_on_read_failure_witness:
  "extract_imports scan_fs ''app/a.tsx''
     = Inr \<lparr>file = ''app/a.tsx'', imports = [''/w/app/b.tsx'', ''lodash'']\<rparr>
   \<and> extract_imports scan_fs ''app/gone.tsx'' = Inl OSError
   \<and> scan_files scan_fs [''app/a.tsx'', ''app/gone.tsx'', ''app/b.tsx''] [] = Inl OSError"
proof -
  have a: "extract_imports scan_fs ''app/a.tsx''
     = Inr \<lparr>file = ''app/a.tsx'', imports = [''/w/app/b.tsx'', ''lodash'']\<rparr>"
    by code_simp
  have g: "read_bytes scan_fs ''app/gone.tsx'' = Inl OSError"
    by code_simp
  show ?thesis
    using scan_files_aborts_on_read_failure [OF g, of "[''app/a.tsx'']" "[''app/b.tsx'']" "[]"] a
    by simp
qed




text \<open>The same for a relative specifier, where no configuration is looked up.\<close>

lemma unresolved_relative_specifier_kept:
  "extract_imports scan_fs ''app/c.tsx'' = Inr \<lparr>file = ''app/c.tsx'', imports = [''./missing'']\<rparr>"
  by code_simp

section \<open>Properties of the configuration lookup\<close>

lemma get_tsconfig_base_url_loop_unfold:
  "get_tsconfig_base_url_loop env current_dir =
     (if isfile env (join current_dir ''tsconfig.json'') then
        (case load_json env (join current_dir ''tsconfig.json'') of
           Inr tsconfig \<Rightarrow>
             (case dict_get tsconfig ''compilerOptions'' (JObject []) of
                Inl e \<Rightarrow> Inl e
              | Inr compiler_opts \<Rightarrow> dict_get compiler_opts ''baseUrl'' JNull)
         | Inl e \<Rightarrow>
             if caught e then
               (if dirname current_dir = current_dir then Inr JNull
                else get_tsconfig_base_url_loop env (dirname current_dir))
             else Inl e)
      else if dirname current_dir = current_dir then Inr JNull
      else get_tsconfig_base_url_loop env (dirname current_dir))"
  by (subst get_tsconfig_base_url_loop.simps) (simp add: Let_def)

lemma find_tsconfig_dir_loop_unfold:
  "find_tsconfig_dir_loop env current_dir =
     (if isfile env (join current_dir ''tsconfig.json'') then Some current_dir
      else if dirname current_dir = current_dir then None
      else find_tsconfig_dir_loop env (dirname current_dir))"
  by (subst find_tsconfig_dir_loop.simps) (simp add: Let_def)

lemma get_tsconfig_base_url_loop_absent:
  assumes "load_json env p = Inl e" and "caught e"
  shows "get_tsconfig_base_url_loop env current_dir
           = get_tsconfig_base_url_loop (env\<lparr>isfile := (isfile env)(p := False)\<rparr>) current_dir"
proof (induction "length current_dir" arbitrary: current_dir rule: less_induct)
  case less
  let ?env' = "env\<lparr>isfile := (isfile env)(p := False)\<rparr>"
  let ?tp = "join current_dir ''tsconfig.json''"
  let ?up = "dirname current_dir"
  have IH: "get_tsconfig_base_url_loop env ?up = get_tsconfig_base_url_loop ?env' ?up"
    if "?up \<noteq> current_dir"
    using less [of ?up] dirname_shorter [OF that] by simp
  show ?case
  proof (cases "?tp = p")
    case True
    have "get_tsconfig_base_url_loop env current_dir
            = (if ?up = current_dir then Inr JNull else get_tsconfig_base_url_loop env ?up)"
      using True assms by (subst get_tsconfig_base_url_loop_unfold) simp
    moreover have "get_tsconfig_base_url_loop ?env' current_dir
            = (if ?up = current_dir then Inr JNull else get_tsconfig_base_url_loop ?env' ?up)"
      using True by (subst get_tsconfig_base_url_loop_unfold) simp
    ultimately show ?thesis using IH by simp
  next
    case False
    show ?thesis
      using False IH
      by (subst get_tsconfig_base_url_loop_unfold,
          subst (2) get_tsconfig_base_url_loop_unfold) (simp split: sum.splits)
  qed
qed

lemma get_tsconfig_base_url_loop_nearest:
  assumes "find_tsconfig_dir_loop env current_dir = Some d"
      and "load_json env (join d ''tsconfig.json'') = Inl e" and "caught e"
  shows "get_tsconfig_base_url_loop env current_dir
           = (if dirname d = d then Inr JNull else get_tsconfig_base_url_loop env (dirname d))"
  using assms(1)
proof (induction "length current_dir" arbitrary: current_dir rule: less_induct)
  case less
  let ?tp = "join current_dir ''tsconfig.json''"
  let ?up = "dirname current_dir"
  show ?case
  proof (cases "isfile env ?tp")
    case True
    then have "d = current_dir"
      using less.prems by (subst (asm) find_tsconfig_dir_loop_unfold) simp
    then show ?thesis
      using True assms(2,3) by (subst get_tsconfig_base_url_loop_unfold) simp
  next
    case False
    then have u: "?up \<noteq> current_dir" and f: "find_tsconfig_dir_loop env ?up = Some d"
      using less.prems by (subst (asm) find_tsconfig_dir_loop_unfold, simp split: if_splits)+
    have "get_tsconfig_base_url_loop env current_dir = get_tsconfig_base_url_loop env ?up"
      using False u by (subst get_tsconfig_base_url_loop_unfold) simp
    then show ?thesis
      using less.hyps [of ?up] dirname_shorter [OF u] f by simp
  qed
qed

text \<open>
  Claim C9, as stated: when the nearest configuration file is malformed, the lookup
  does not raise and yields the empty result.  Under \<^verbatim>\<open>/p/app\<close> the nearest
  configuration fails to parse and \<^verbatim>\<open>get_tsconfig_base_url\<close> returns the
  \<^verbatim>\<open>baseUrl\<close> of the configuration one directory up; under \<^verbatim>\<open>/p/bad\<close> the
  nearest configuration fails to parse and the lookup raises on the one further up.
\<close>

theorem malformed_nearest_config_not_default:
  "find_tsconfig_json malformed_fs ''/p/app'' = Some ''/p/app/tsconfig.json''
   \<and> load_json malformed_fs ''/p/app/tsconfig.json'' = Inl JSONDecodeError
   \<and> get_tsconfig_base_url malformed_fs ''/p/app'' = Inr (JString ''src'')
   \<and> find_tsconfig_json null_options_fs ''/p/bad'' = Some ''/p/bad/tsconfig.json''
   \<and> load_json null_options_fs ''/p/bad/tsconfig.json'' = Inl JSONDecodeError
   \<and> get_tsconfig_base_url null_options_fs ''/p/bad'' = Inl AttributeError"
  by code_simp

text \<open>
  \<^verbatim>\<open>parse_tsconfig\<close>, which has no handler, fails on the same file; a nearest
  configuration that is not UTF-8 makes the lookup raise, since the handler does not
  name that error.
\<close>

lemma parse_tsconfig_malformed:
  "parse_tsconfig malformed_fs (find_tsconfig_json malformed_fs ''/p/app'') = Inl JSONDecodeError"
  by code_simp

lemma get_tsconfig_base_url_not_utf8:
  "find_tsconfig_json null_options_fs ''/p/latin'' = Some ''/p/latin/tsconfig.json''
   \<and> load_json null_options_fs ''/p/latin/tsconfig.json'' = Inl UnicodeDecodeError
   \<and> get_tsconfig_base_url null_options_fs ''/p/latin'' = Inl UnicodeDecodeError"
  by code_simp

lemma parse_tsconfig_null_options:
  "parse_tsconfig null_options_fs (Some ''/p/tsconfig.json'') = Inl AttributeError"
  by code_simp

text \<open>
  Claim C9, amended: when loading the nearest configuration file ends in
  \<^verbatim>\<open>JSONDecodeError\<close> (the file is malformed) or \<^verbatim>\<open>OSError\<close>,
  \<^verbatim>\<open>get_tsconfig_base_url\<close> does what it would do if that file did not exist: the
  walk goes on from the parent directory and the outcome is the one of the walk from
  there, be it a \<^verbatim>\<open>baseUrl\<close>, the empty result or an exception; it is the empty
  result at the root.
\<close>

theorem get_tsconfig_base_url_skips_malformed:
  assumes "find_tsconfig_dir env start_dir = Some d"
      and "load_json env (join d ''tsconfig.json'') = Inl e"
      and "caught e"
  shows "get_tsconfig_base_url env start_dir
           = get_tsconfig_base_url
               (env\<lparr>isfile := (isfile env)(join d ''tsconfig.json'' := False)\<rparr>) start_dir
         \<and> get_tsconfig_base_url env start_dir
           = (if dirname d = d then Inr JNull else get_tsconfig_base_url_loop env (dirname d))"
proof -
  have "abspath (env\<lparr>isfile := (isfile env)(join d ''tsconfig.json'' := False)\<rparr>) start_dir
          = abspath env start_dir"
    by (simp add: abspath_def)
  then show ?thesis
    using get_tsconfig_base_url_loop_absent [OF assms(2,3)]
      get_tsconfig_base_url_loop_nearest [OF _ assms(2,3)] assms(1)
    by (simp add: get_tsconfig_base_url_def find_tsconfig_dir_def)
qed

theorem get_tsconfig_base_url_skips_malformed_witness:
  "find_tsconfig_dir malformed_fs ''/p/app'' = Some ''/p/app''
   \<and> load_json malformed_fs ''/p/app/tsconfig.json'' = Inl JSONDecodeError
   \<and> get_tsconfig_base_url malformed_fs ''/p/app'' = get_tsconfig_base_url_loop malformed_fs ''/p''
   \<and> get_tsconfig_base_url_loop malformed_fs ''/p'' = Inr (JString ''src'')"
proof -
  have f: "find_tsconfig_dir malformed_fs ''/p/app'' = Some ''/p/app''"
    by code_simp
  have j: "join ''/p/app'' ''tsconfig.json'' = ''/p/app/tsconfig.json''"
    by code_simp
  have l: "load_json malformed_fs (join ''/p/app'' ''tsconfig.json'') = Inl JSONDecodeError"
    by code_simp
  have c: "caught JSONDecodeError"
    by (simp add: caught_def)
  have d: "dirname ''/p/app'' = ''/p''"
    by code_simp
  have v: "get_tsconfig_base_url_loop malformed_fs ''/p'' = Inr (JString ''src'')"
    by code_simp
  have "get_tsconfig_base_url malformed_fs ''/p/app''
          = (if dirname ''/p/app'' = ''/p/app'' then Inr JNull
             else get_tsconfig_base_url_loop malformed_fs (dirname ''/p/app''))"
    using get_tsconfig_base_url_skips_malformed [OF f l c] by (rule conjunct2)
  then have "get_tsconfig_base_url malformed_fs ''/p/app''
          = get_tsconfig_base_url_loop malformed_fs ''/p''"
    unfolding d by simp
  then show ?thesis
    using f l v unfolding j by simp
qed

section \<open>Alias resolution and node identities\<close>

text \<open>
  Claim C1: an \<^verbatim>\<open>@/\<close> specifier resolves to the same path, under the
  configuration directory joined with \<^verbatim>\<open>baseUrl\<close>, from every importer of one
  configuration scope.  The resolver joins the rewritten specifier with the importer's
  directory: \<^verbatim>\<open>/p\<close> and \<^verbatim>\<open>/p/app\<close> share the configuration of \<^verbatim>\<open>/p\<close>
  (\<^verbatim>\<open>baseUrl\<close> \<^verbatim>\<open>src\<close>), yet \<^verbatim>\<open>@/x\<close> resolves to \<^verbatim>\<open>/p/src/x.ts\<close>
  from the first and to nothing from the second, and \<^verbatim>\<open>@/y\<close> resolves from the
  second to a file outside \<^verbatim>\<open>/p/src\<close>.
\<close>

theorem alias_resolution_depends_on_importer:
  "find_tsconfig_dir alias_fs ''/p'' = Some ''/p''
   \<and> find_tsconfig_dir alias_fs ''/p/app'' = Some ''/p''
   \<and> get_tsconfig_base_url alias_fs ''/p'' = Inr (JString ''src'')
   \<and> get_tsconfig_base_url alias_fs ''/p/app'' = Inr (JString ''src'')
   \<and> resolve_import_path alias_fs ''/p'' ''@/x'' = Inr (Some ''/p/src/x.ts'')
   \<and> resolve_import_path alias_fs ''/p/app'' ''@/x'' = Inr None
   \<and> resolve_import_path alias_fs ''/p/app'' ''@/y'' = Inr (Some ''/p/app/src/y.ts'')
   \<and> \<not> startswith ''/p/app/src/y.ts'' (join ''/p'' ''src'')"
  by code_simp

text \<open>
  Claim C3: every path that identifies a node is absolute and normalized, so that a file
  has one node.  Scanning \<^verbatim>\<open>app/a.tsx\<close> and \<^verbatim>\<open>app/b.tsx\<close> from \<^verbatim>\<open>/w\<close>,
  as the walk of \<^verbatim>\<open>main.py\<close> names them, stores the sources under the relative
  paths and the import target under the absolute one (\<open>resolve_import_path_isabs\<close>):
  \<^verbatim>\<open>b.tsx\<close> has two nodes.
\<close>

theorem relative_source_absolute_target:
  "scan_files scan_fs [''app/a.tsx'', ''app/b.tsx''] []
     = Inr [\<lparr>file = ''app/a.tsx'', imports = [''/w/app/b.tsx'', ''lodash'']\<rparr>,
            \<lparr>file = ''app/b.tsx'', imports = []\<rparr>]
   \<and> nodes (create_file_dependency_graph
        [\<lparr>file = ''app/a.tsx'', imports = [''/w/app/b.tsx'', ''lodash'']\<rparr>,
         \<lparr>file = ''app/b.tsx'', imports = []\<rparr>] \<lparr>nodes = [], rels = []\<rparr>)
     = [''app/a.tsx'', ''/w/app/b.tsx'', ''lodash'', ''app/b.tsx'']
   \<and> abspath scan_fs ''app/b.tsx'' = ''/w/app/b.tsx''"
  by code_simp

end
